theory Spec2Isabelle
  imports Main
begin

section \<open>Values, types and errors\<close>

text \<open>
  The pipeline works on \<^verbatim>\<open>reflect.Value\<close>s and looks them up by \<^verbatim>\<open>reflect.Type\<close>.
  A type is identified by its name. An \<^verbatim>\<open>interface{}\<close> is nil or holds a value with its
  dynamic type. A (valid) \<^verbatim>\<open>reflect.Value\<close> has a type and holds such an interface: for
  a result of a call the type is the declared result type, which for an interface
  type (\<^verbatim>\<open>error\<close>, say) differs from the dynamic type of what it holds, and what it
  holds may be nil. \<^verbatim>\<open>r.Interface()\<close> gives what the value holds;
  \<^verbatim>\<open>reflect.ValueOf(out)\<close> gives a value of the dynamic type, or the zero
  \<^verbatim>\<open>Value\<close> (\<open>None\<close>) for a nil interface, on which \<^verbatim>\<open>Type()\<close> panics.
  \<^verbatim>\<open>Type.AssignableTo\<close> belongs to the reflect package and is a parameter, written
  \<open>A\<close>, of every function that uses it. Go's \<^verbatim>\<open>int\<close> is modelled by \<open>int\<close>: indices are
  only compared, and the one addition (\<^verbatim>\<open>idx + 1\<close>) is guarded by \<^verbatim>\<open>idx < len(vals)-1\<close>.
\<close>

type_synonym rtype = string

datatype iface = NilInterface | Boxed rtype int

datatype rvalue = RValue (Type: rtype) (held: iface)

definition Interface :: "rvalue \<Rightarrow> iface" where
  "Interface r = held r"

definition ValueOf :: "iface \<Rightarrow> rvalue option" where
  "ValueOf i = (case i of NilInterface \<Rightarrow> None | Boxed t x \<Rightarrow> Some (RValue t (Boxed t x)))"

type_synonym assignable = "rtype \<Rightarrow> rtype \<Rightarrow> bool"

text \<open>One constructor for each \<^verbatim>\<open>fmt.Errorf\<close> of the source, with the arguments of its format.\<close>

datatype error =
    NotFound rtype
  | InvalidIndex rtype
  | CannotFindValue string rtype error
  | MissingArgument string rtype
  | UnknownPolicy string
  | IndexOutOfRangeInitial string int nat
  | TypeMismatchInitial string int rtype rtype
  | UnknownProducer string string
  | IndexOutOfRangeOutput string int string nat
  | TypeMismatchOutput string rtype string rtype

text \<open>
  A call that does not produce its value either returns an error or panics. A function
  that may panic gives a \<open>failure\<close> where one that cannot gives an \<open>error\<close>;
  \<open>returned\<close> passes the result of the second kind on as one of the first.
\<close>

datatype failure = Err error | Panic

definition returned :: "error + 'a \<Rightarrow> failure + 'a" where
  "returned r = (case r of Inl err \<Rightarrow> Inl (Err err) | Inr v \<Rightarrow> Inr v)"

text \<open>What the caller of \<^verbatim>\<open>Execute\<close> sees: the values returned, or the panic.\<close>

datatype 'a call = Returns (returnedValues: 'a) | Panics

section \<open>Configuration\<close>

type_synonym MissingArgPolicy = int

definition MissingArgPolicyUseLatest :: MissingArgPolicy where
  "MissingArgPolicyUseLatest = 0"

definition MissingArgPolicyFail :: MissingArgPolicy where
  "MissingArgPolicyFail = 1"

type_synonym ArgSourceType = int

definition ArgSourceDefault :: ArgSourceType where
  "ArgSourceDefault = 0"

definition ArgSourceInitial :: ArgSourceType where
  "ArgSourceInitial = 1"

definition ArgSourceFunctionOutput :: ArgSourceType where
  "ArgSourceFunctionOutput = 2"

record ArgBinding =
  Source :: ArgSourceType
  Name :: string
  Index :: int

text \<open>An entry of \<^verbatim>\<open>ArgBindings\<close> is a pointer: \<open>None\<close> is the nil entry.\<close>

record StepConfig =
  ArgBindings :: "ArgBinding option list"

record PipelineConfig =
  StepOrder :: "string list"
  MissingArgPolicy :: MissingArgPolicy
  OutputFilter :: "string list"
  StepConfigs :: "string \<rightharpoonup> StepConfig"

definition NewPipelineConfig :: PipelineConfig where
  "NewPipelineConfig =
     \<lparr>StepOrder = [], MissingArgPolicy = MissingArgPolicyUseLatest,
      OutputFilter = [], StepConfigs = Map.empty\<rparr>"

section \<open>The execution context (value store)\<close>

record ExecutionContext =
  "values" :: "rtype \<rightharpoonup> rvalue list"
  initialValues :: "rvalue list"

definition NewExecutionContext :: ExecutionContext where
  "NewExecutionContext = \<lparr>values = Map.empty, initialValues = []\<rparr>"

text \<open>Reading a missing key of a Go map of slices gives the nil slice.\<close>

definition sliceAt :: "('k \<rightharpoonup> 'a list) \<Rightarrow> 'k \<Rightarrow> 'a list" where
  "sliceAt m k = (case m k of None \<Rightarrow> [] | Some xs \<Rightarrow> xs)"

definition storeValue :: "ExecutionContext \<Rightarrow> rvalue \<Rightarrow> ExecutionContext" where
  "storeValue ctx val =
     (let t = Type val
      in ctx\<lparr>values := (values ctx)(t \<mapsto> sliceAt (values ctx) t @ [val])\<rparr>)"

fun StoreResults :: "ExecutionContext \<Rightarrow> rvalue list \<Rightarrow> ExecutionContext" where
  "StoreResults ctx [] = ctx"
| "StoreResults ctx (result # results) = StoreResults (storeValue ctx result) results"

text \<open>
  The inputs are given as their \<^verbatim>\<open>reflect.ValueOf\<close>; a nil input panics at
  \<^verbatim>\<open>val.Type()\<close> before anything of it is stored, so the store never holds one.
\<close>

fun AddInputs :: "ExecutionContext \<Rightarrow> rvalue list \<Rightarrow> ExecutionContext" where
  "AddInputs ctx [] = ctx"
| "AddInputs ctx (val # inputs) =
     (let t = Type val
      in AddInputs
           (ctx\<lparr>values := (values ctx)(t \<mapsto> sliceAt (values ctx) t @ [val]),
                initialValues := initialValues ctx @ [val]\<rparr>)
           inputs)"

definition InitialValues :: "ExecutionContext \<Rightarrow> rvalue list" where
  "InitialValues ctx = initialValues ctx"

definition getValueByIndex :: "ExecutionContext \<Rightarrow> rtype \<Rightarrow> int \<Rightarrow> error + rvalue" where
  "getValueByIndex ctx t index =
     (case values ctx t of
        None \<Rightarrow> Inl (NotFound t)
      | Some vals \<Rightarrow>
          if length vals = 0 then Inl (NotFound t)
          else if index < 0 then Inl (InvalidIndex t)
          else if index \<ge> int (length vals) then Inr (vals ! nat (int (length vals) - 1))
          else Inr (vals ! nat index))"

section \<open>The pipeline\<close>

text \<open>
  A callable is what reflection shows of it: its parameter types (\<^verbatim>\<open>NumIn\<close>, \<^verbatim>\<open>In(i)\<close>)
  and the results of calling it.
\<close>

record Callable =
  In :: "rtype list"
  Call :: "rvalue list \<Rightarrow> rvalue list"

record Step =
  Name :: string
  Callable :: Callable

text \<open>The logger is modelled by the calls made to it, oldest first.\<close>

datatype LogCall =
    DebugAddedStep string
  | DebugAddedInputs nat
  | InfoExecuting string
  | ErrorStepFailed string error
  | InfoComplete
  | WarnNotInSteps string
  | DebugProduced string nat

record Pipeline =
  steps :: "Step list"
  "context" :: ExecutionContext
  config :: PipelineConfig
  logger :: "LogCall list"
  stepOutputs :: "string \<rightharpoonup> iface list"
  pickCounters :: "rtype \<rightharpoonup> int"

definition NewPipeline :: "PipelineConfig \<Rightarrow> Pipeline" where
  "NewPipeline cfg =
     \<lparr>steps = [], context = NewExecutionContext, config = cfg, logger = [],
      stepOutputs = Map.empty, pickCounters = Map.empty\<rparr>"

definition logCall :: "Pipeline \<Rightarrow> LogCall \<Rightarrow> Pipeline" where
  "logCall p l = p\<lparr>logger := logger p @ [l]\<rparr>"

definition AddStep :: "Pipeline \<Rightarrow> string \<Rightarrow> Callable \<Rightarrow> Pipeline" where
  "AddStep p name callable =
     logCall (p\<lparr>steps := steps p @ [\<lparr>Name = name, Callable = callable\<rparr>]\<rparr>)
       (DebugAddedStep name)"

definition AddInitialInputs :: "Pipeline \<Rightarrow> rvalue list \<Rightarrow> Pipeline" where
  "AddInitialInputs p inputs =
     logCall (p\<lparr>context := AddInputs (context p) inputs\<rparr>) (DebugAddedInputs (length inputs))"

subsection \<open>Reordering the steps\<close>

text \<open>
  \<^verbatim>\<open>stepMap\<close> holds pointers into \<^verbatim>\<open>p.steps\<close>, which is not written before the last
  line of the function, so each pointer stands for the step it points to.
\<close>

fun buildStepMap :: "(string \<rightharpoonup> Step) \<Rightarrow> Step list \<Rightarrow> (string \<rightharpoonup> Step)" where
  "buildStepMap stepMap [] = stepMap"
| "buildStepMap stepMap (s # ss) = buildStepMap (stepMap(Step.Name s \<mapsto> s)) ss"

text \<open>The loop over \<^verbatim>\<open>config.StepOrder\<close>: the state is \<^verbatim>\<open>used\<close>, \<^verbatim>\<open>ordered\<close> and the log.\<close>

fun walkStepOrder ::
  "(string \<rightharpoonup> Step) \<Rightarrow> string list \<Rightarrow> (string \<rightharpoonup> bool) \<times> Step list \<times> LogCall list
     \<Rightarrow> (string \<rightharpoonup> bool) \<times> Step list \<times> LogCall list" where
  "walkStepOrder stepMap [] acc = acc"
| "walkStepOrder stepMap (desiredName # rest) (used, ordered, lg) =
     (case stepMap desiredName of
        None \<Rightarrow> walkStepOrder stepMap rest (used, ordered, lg @ [WarnNotInSteps desiredName])
      | Some st \<Rightarrow>
          walkStepOrder stepMap rest (used(desiredName \<mapsto> True), ordered @ [st], lg))"

text \<open>Reading a missing key of \<^verbatim>\<open>map[string]bool\<close> gives \<^verbatim>\<open>false\<close>.\<close>

definition isUsed :: "(string \<rightharpoonup> bool) \<Rightarrow> string \<Rightarrow> bool" where
  "isUsed used name = (case used name of None \<Rightarrow> False | Some b \<Rightarrow> b)"

fun addRemaining :: "(string \<rightharpoonup> bool) \<Rightarrow> Step list \<Rightarrow> Step list \<Rightarrow> Step list" where
  "addRemaining used [] ordered = ordered"
| "addRemaining used (s # ss) ordered =
     (if \<not> isUsed used (Step.Name s) then addRemaining used ss (ordered @ [s])
      else addRemaining used ss ordered)"

definition reorderStepsIfNeeded :: "Pipeline \<Rightarrow> Pipeline" where
  "reorderStepsIfNeeded p =
     (if length (StepOrder (config p)) = 0 then p
      else
        let stepMap = buildStepMap Map.empty (steps p);
            (used, ordered, lg) =
               walkStepOrder stepMap (StepOrder (config p)) (Map.empty, [], logger p);
            ordered' = addRemaining used (steps p) ordered
        in p\<lparr>steps := ordered', logger := lg\<rparr>)"

subsection \<open>Resolving one argument\<close>

definition pickCounter :: "Pipeline \<Rightarrow> rtype \<Rightarrow> int" where
  "pickCounter p t = (case pickCounters p t of None \<Rightarrow> 0 | Some c \<Rightarrow> c)"

definition resolveArgDefault :: "Pipeline \<Rightarrow> Step \<Rightarrow> rtype \<Rightarrow> (error + rvalue) \<times> Pipeline" where
  "resolveArgDefault p step paramType =
     (if MissingArgPolicy (config p) = MissingArgPolicyUseLatest then
        (let idx = pickCounter p paramType
         in case getValueByIndex (context p) paramType idx of
              Inl err \<Rightarrow> (Inl (CannotFindValue (Step.Name step) paramType err), p)
            | Inr val \<Rightarrow>
                (let vals = sliceAt (values (context p)) paramType
                 in if idx < int (length vals) - 1
                    then (Inr val, p\<lparr>pickCounters := (pickCounters p)(paramType \<mapsto> idx + 1)\<rparr>)
                    else (Inr val, p)))
      else if MissingArgPolicy (config p) = MissingArgPolicyFail then
        (Inl (MissingArgument (Step.Name step) paramType), p)
      else (Inl (UnknownPolicy (Step.Name step)), p))"

definition resolveArgFromInitial ::
  "assignable \<Rightarrow> Pipeline \<Rightarrow> Step \<Rightarrow> rtype \<Rightarrow> int \<Rightarrow> error + rvalue" where
  "resolveArgFromInitial A p step paramType index =
     (let allInitial = InitialValues (context p)
      in if index < 0 \<or> index \<ge> int (length allInitial)
         then Inl (IndexOutOfRangeInitial (Step.Name step) index (length allInitial))
         else
           let val = allInitial ! nat index
           in if \<not> A (Type val) paramType
              then Inl (TypeMismatchInitial (Step.Name step) index (Type val) paramType)
              else Inr val)"

text \<open>
  \<^verbatim>\<open>val := reflect.ValueOf(out)\<close> is the zero \<^verbatim>\<open>Value\<close> when the logged output is a nil
  interface, and \<^verbatim>\<open>val.Type()\<close> then panics.
\<close>

definition resolveArgFromFunctionOutput ::
  "assignable \<Rightarrow> Pipeline \<Rightarrow> Step \<Rightarrow> rtype \<Rightarrow> string \<Rightarrow> int \<Rightarrow> failure + rvalue" where
  "resolveArgFromFunctionOutput A p step paramType funcName outputIndex =
     (case stepOutputs p funcName of
        None \<Rightarrow> Inl (Err (UnknownProducer (Step.Name step) funcName))
      | Some outputs \<Rightarrow>
          if outputIndex < 0 \<or> outputIndex \<ge> int (length outputs)
          then Inl (Err (IndexOutOfRangeOutput (Step.Name step) outputIndex funcName
                           (length outputs)))
          else
            let out = outputs ! nat outputIndex
            in case ValueOf out of
                 None \<Rightarrow> Inl Panic
               | Some val \<Rightarrow>
                   if \<not> A (Type val) paramType
                   then Inl (Err (TypeMismatchOutput (Step.Name step) (Type val) funcName
                                    paramType))
                   else Inr val)"

definition resolveArg ::
  "assignable \<Rightarrow> Pipeline \<Rightarrow> Step \<Rightarrow> rtype \<Rightarrow> ArgBinding \<Rightarrow> (failure + rvalue) \<times> Pipeline" where
  "resolveArg A p step paramType binding =
     (if Source binding = ArgSourceInitial
      then (returned (resolveArgFromInitial A p step paramType (Index binding)), p)
      else if Source binding = ArgSourceFunctionOutput
      then (resolveArgFromFunctionOutput A p step paramType (ArgBinding.Name binding)
              (Index binding), p)
      else apfst returned (resolveArgDefault p step paramType))"

subsection \<open>Executing a step\<close>

text \<open>
  The body of the loop over the parameters: a custom binding when the step has a
  configuration with a non-nil entry at position \<open>i\<close>, the default otherwise.
\<close>

definition customBinding :: "bool \<Rightarrow> ArgBinding option list \<Rightarrow> nat \<Rightarrow> ArgBinding option" where
  "customBinding hasStepCfg bindings i =
     (if hasStepCfg \<and> i < length bindings then bindings ! i else None)"

definition resolveParam ::
  "assignable \<Rightarrow> Pipeline \<Rightarrow> Step \<Rightarrow> bool \<Rightarrow> ArgBinding option list \<Rightarrow> nat \<Rightarrow> rtype
     \<Rightarrow> (failure + rvalue) \<times> Pipeline" where
  "resolveParam A p step hasStepCfg bindings i paramType =
     (case customBinding hasStepCfg bindings i of
        Some binding \<Rightarrow> resolveArg A p step paramType binding
      | None \<Rightarrow> apfst returned (resolveArgDefault p step paramType))"

text \<open>
  The loop \<^verbatim>\<open>for i := 0; i < numIn; i++\<close>: \<open>i\<close> is the position of the first of the
  parameter types still to resolve. The first error, or a panic, ends it.
\<close>

fun resolveArgs ::
  "assignable \<Rightarrow> Pipeline \<Rightarrow> Step \<Rightarrow> bool \<Rightarrow> ArgBinding option list \<Rightarrow> nat \<Rightarrow> rtype list
     \<Rightarrow> (failure + rvalue list) \<times> Pipeline" where
  "resolveArgs A p step hasStepCfg bindings i [] = (Inr [], p)"
| "resolveArgs A p step hasStepCfg bindings i (t # ts) =
     (case resolveParam A p step hasStepCfg bindings i t of
        (Inl err, p') \<Rightarrow> (Inl err, p')
      | (Inr argVal, p') \<Rightarrow>
          (case resolveArgs A p' step hasStepCfg bindings (Suc i) ts of
             (Inl err, p'') \<Rightarrow> (Inl err, p'')
           | (Inr args, p'') \<Rightarrow> (Inr (argVal # args), p'')))"

text \<open>
  The lookup \<^verbatim>\<open>stepCfg, hasStepCfg := p.config.StepConfigs[step.Name]\<close> and the bindings
  it leaves in \<^verbatim>\<open>bindings\<close> (nil without a configuration). The entries of
  \<^verbatim>\<open>StepConfigs\<close> are taken to be non-nil pointers.
\<close>

definition stepBindings :: "Pipeline \<Rightarrow> Step \<Rightarrow> bool \<times> ArgBinding option list" where
  "stepBindings p step =
     (case StepConfigs (config p) (Step.Name step) of
        None \<Rightarrow> (False, [])
      | Some stepCfg \<Rightarrow> (True, ArgBindings stepCfg))"

definition resolveStepArgs ::
  "assignable \<Rightarrow> Pipeline \<Rightarrow> Step \<Rightarrow> (failure + rvalue list) \<times> Pipeline" where
  "resolveStepArgs A p step =
     (case stepBindings p step of
        (hasStepCfg, bindings) \<Rightarrow>
          resolveArgs A p step hasStepCfg bindings 0 (In (Callable step)))"

text \<open>
  The results go to the value store as the values the call returned, and to the
  output log as what they hold (\<^verbatim>\<open>r.Interface()\<close>).
\<close>

definition executeStep :: "assignable \<Rightarrow> Pipeline \<Rightarrow> Step \<Rightarrow> failure option \<times> Pipeline" where
  "executeStep A p step =
     (case resolveStepArgs A p step of
        (Inl err, p') \<Rightarrow> (Some err, p')
      | (Inr args, p') \<Rightarrow>
          (let results = Call (Callable step) args;
               p1 = p'\<lparr>context := StoreResults (context p') results\<rparr>;
               resultInterfaces = map Interface results;
               p2 = p1\<lparr>stepOutputs := (stepOutputs p1)
                         (Step.Name step \<mapsto>
                            sliceAt (stepOutputs p1) (Step.Name step) @ resultInterfaces)\<rparr>
           in (None, logCall p2 (DebugProduced (Step.Name step) (length results)))))"

subsection \<open>Filtering the outputs\<close>

fun buildFilterSet :: "(string \<rightharpoonup> unit) \<Rightarrow> string list \<Rightarrow> (string \<rightharpoonup> unit)" where
  "buildFilterSet filterSet [] = filterSet"
| "buildFilterSet filterSet (name # names) = buildFilterSet (filterSet(name \<mapsto> ())) names"

text \<open>
  The loop over \<^verbatim>\<open>p.stepOutputs\<close> copies an entry when its key is in the filter set;
  the order of the iteration does not show in the map it builds.
\<close>

definition filterOutputs :: "Pipeline \<Rightarrow> (string \<rightharpoonup> iface list)" where
  "filterOutputs p =
     (if length (OutputFilter (config p)) = 0 then stepOutputs p
      else
        let filterSet = buildFilterSet Map.empty (OutputFilter (config p))
        in (\<lambda>stepName.
              case stepOutputs p stepName of
                None \<Rightarrow> None
              | Some outputs \<Rightarrow>
                  (case filterSet stepName of None \<Rightarrow> None | Some _ \<Rightarrow> Some outputs)))"

subsection \<open>Execute\<close>

text \<open>
  The body of the loop over the steps. It first logs the step and replaces the pick
  counters by an empty map (\<open>beginStep\<close>), then executes the step; a returned error is
  logged, a panic passes through.
\<close>

definition beginStep :: "Pipeline \<Rightarrow> Step \<Rightarrow> Pipeline" where
  "beginStep p step = (logCall p (InfoExecuting (Step.Name step)))\<lparr>pickCounters := Map.empty\<rparr>"

definition executeLoopBody :: "assignable \<Rightarrow> Pipeline \<Rightarrow> Step \<Rightarrow> failure option \<times> Pipeline" where
  "executeLoopBody A p step =
     (case executeStep A (beginStep p step) step of
        (Some (Err err), p3) \<Rightarrow>
          (Some (Err err), logCall p3 (ErrorStepFailed (Step.Name step) err))
      | (Some Panic, p3) \<Rightarrow> (Some Panic, p3)
      | (None, p3) \<Rightarrow> (None, p3))"

fun executeSteps :: "assignable \<Rightarrow> Pipeline \<Rightarrow> Step list \<Rightarrow> failure option \<times> Pipeline" where
  "executeSteps A p [] = (None, p)"
| "executeSteps A p (step # rest) =
     (case executeLoopBody A p step of
        (Some err, p') \<Rightarrow> (Some err, p')
      | (None, p') \<Rightarrow> executeSteps A p' rest)"

text \<open>
  \<^verbatim>\<open>Execute\<close> returns the pair of the result map and the error, or panics, and leaves
  the pipeline changed; a nil map is the empty map.
\<close>

definition Execute ::
  "assignable \<Rightarrow> Pipeline \<Rightarrow> ((string \<rightharpoonup> iface list) \<times> error option) call \<times> Pipeline" where
  "Execute A p =
     (let p0 = reorderStepsIfNeeded p
      in case executeSteps A p0 (steps p0) of
           (Some (Err err), p1) \<Rightarrow> (Returns (Map.empty, Some err), p1)
         | (Some Panic, p1) \<Rightarrow> (Panics, p1)
         | (None, p1) \<Rightarrow> (Returns (filterOutputs p1, None), logCall p1 InfoComplete))"

section \<open>Notions used by the properties\<close>

text \<open>
  A parameter at position \<open>i\<close> falls back to default resolution when the step has no
  configuration, when its bindings stop before \<open>i\<close>, when the entry is nil, or when
  the entry's source is neither \<^verbatim>\<open>ArgSourceInitial\<close> nor \<^verbatim>\<open>ArgSourceFunctionOutput\<close>.
\<close>

definition defaultResolved :: "bool \<Rightarrow> ArgBinding option list \<Rightarrow> nat \<Rightarrow> bool" where
  "defaultResolved hasStepCfg bindings i =
     (\<not> hasStepCfg \<or> length bindings \<le> i \<or>
      (case bindings ! i of
         None \<Rightarrow> True
       | Some b \<Rightarrow> Source b \<noteq> ArgSourceInitial \<and> Source b \<noteq> ArgSourceFunctionOutput))"

text \<open>
  The number of parameters before position \<open>i\<close> that fall back to default resolution
  and have type \<open>T\<close>.
\<close>

definition sameTypeDefaultsBefore ::
  "bool \<Rightarrow> ArgBinding option list \<Rightarrow> rtype list \<Rightarrow> rtype \<Rightarrow> nat \<Rightarrow> nat" where
  "sameTypeDefaultsBefore hasStepCfg bindings ts T i =
     length (filter (\<lambda>q. defaultResolved hasStepCfg bindings q \<and> ts ! q = T) [0..<i])"

section \<open>Example pipelines\<close>

definition intValue :: "int \<Rightarrow> rvalue" where
  "intValue n = RValue ''int'' (Boxed ''int'' n)"

definition stringValue :: "int \<Rightarrow> rvalue" where
  "stringValue n = RValue ''string'' (Boxed ''string'' n)"

text \<open>\<^verbatim>\<open>func() int { return 1 }\<close>\<close>

definition produceOne :: Callable where
  "produceOne = \<lparr>In = [], Call = (\<lambda>args. [intValue 1])\<rparr>"

text \<open>\<^verbatim>\<open>func(s string) {}\<close>\<close>

definition consumeString :: Callable where
  "consumeString = \<lparr>In = [''string''], Call = (\<lambda>args. [])\<rparr>"

text \<open>\<^verbatim>\<open>func() {}\<close>\<close>

definition produceNothing :: Callable where
  "produceNothing = \<lparr>In = [], Call = (\<lambda>args. [])\<rparr>"

text \<open>\<^verbatim>\<open>func(x, y, z int) (int, int, int) { return x, y, z }\<close>\<close>

definition threeInts :: Callable where
  "threeInts = \<lparr>In = [''int'', ''int'', ''int''], Call = (\<lambda>args. args)\<rparr>"

text \<open>\<^verbatim>\<open>func() error { return nil }\<close>\<close>

definition returnNilError :: Callable where
  "returnNilError = \<lparr>In = [], Call = (\<lambda>args. [RValue ''error'' NilInterface])\<rparr>"

text \<open>\<^verbatim>\<open>func(err error) error { return err }\<close>\<close>

definition passError :: Callable where
  "passError = \<lparr>In = [''error''], Call = (\<lambda>args. args)\<rparr>"

definition configWith :: "string list \<Rightarrow> MissingArgPolicy \<Rightarrow> string list \<Rightarrow> PipelineConfig" where
  "configWith order policy outFilter =
     NewPipelineConfig\<lparr>StepOrder := order, MissingArgPolicy := policy, OutputFilter := outFilter\<rparr>"

definition stepA :: Step where
  "stepA = \<lparr>Name = ''a'', Callable = produceOne\<rparr>"

definition stepB :: Step where
  "stepB = \<lparr>Name = ''b'', Callable = consumeString\<rparr>"

definition twoInts :: ExecutionContext where
  "twoInts = AddInputs NewExecutionContext [intValue 10, intValue 20]"

definition twoInputs :: Pipeline where
  "twoInputs = AddInitialInputs (NewPipeline NewPipelineConfig) [intValue 10, stringValue 20]"

definition onlyA :: Pipeline where
  "onlyA = AddStep (NewPipeline NewPipelineConfig) ''a'' produceOne"

definition repeatedOrder :: Pipeline where
  "repeatedOrder =
     AddStep (NewPipeline (configWith [''a'', ''a''] MissingArgPolicyUseLatest [])) ''a'' produceOne"

definition mixedOrder :: Pipeline where
  "mixedOrder =
     AddStep (AddStep (NewPipeline (configWith [''b'', ''z'', ''a''] MissingArgPolicyUseLatest []))
       ''a'' produceOne) ''b'' produceNothing"

definition ranA :: Pipeline where
  "ranA = snd (Execute (=) onlyA)"

definition stepC :: Step where
  "stepC = \<lparr>Name = ''c'', Callable = produceNothing\<rparr>"

definition failingB :: Pipeline where
  "failingB =
     AddStep (AddStep (AddStep (NewPipeline NewPipelineConfig) ''a'' produceOne)
       ''b'' consumeString) ''c'' produceNothing"

definition repeatA :: Pipeline where
  "repeatA =
     AddStep (AddStep (NewPipeline (configWith [''a'', ''b'', ''a''] MissingArgPolicyUseLatest []))
       ''a'' produceOne) ''b'' consumeString"

definition quietPipeline :: Pipeline where
  "quietPipeline =
     AddStep (NewPipeline (configWith [] MissingArgPolicyUseLatest [''a''])) ''a'' produceNothing"

definition failPolicy :: Pipeline where
  "failPolicy =
     AddInitialInputs
       (AddStep (AddStep (NewPipeline (configWith [] MissingArgPolicyFail [])) ''a'' produceOne)
          ''b'' consumeString)
       [stringValue 5]"

definition stepT :: Step where
  "stepT = \<lparr>Name = ''t'', Callable = threeInts\<rparr>"

definition threeInputs :: Pipeline where
  "threeInputs =
     AddInitialInputs (AddStep (NewPipeline NewPipelineConfig) ''t'' threeInts)
       [intValue 10, intValue 20]"

text \<open>
  Step \<open>e\<close> returns a nil error; step \<open>h\<close> takes an error, bound to output 0 of \<open>e\<close>
  in the first pipeline and left to default resolution in the second.
\<close>

definition stepE :: Step where
  "stepE = \<lparr>Name = ''e'', Callable = returnNilError\<rparr>"

definition stepH :: Step where
  "stepH = \<lparr>Name = ''h'', Callable = passError\<rparr>"

definition outputOfE :: ArgBinding where
  "outputOfE = \<lparr>Source = ArgSourceFunctionOutput, Name = ''e'', Index = 0\<rparr>"

definition nilErrorBound :: Pipeline where
  "nilErrorBound =
     AddStep
       (AddStep
          (NewPipeline
             (NewPipelineConfig\<lparr>StepConfigs := [''h'' \<mapsto> \<lparr>ArgBindings = [Some outputOfE]\<rparr>]\<rparr>))
          ''e'' returnNilError)
       ''h'' passError"

definition nilErrorDefault :: Pipeline where
  "nilErrorDefault =
     AddStep (AddStep (NewPipeline NewPipelineConfig) ''e'' returnNilError) ''h'' passError"

section \<open>The value store\<close>

lemma twoInts_values: "values twoInts ''int'' = Some [intValue 10, intValue 20]"
  by (simp add: twoInts_def NewExecutionContext_def sliceAt_def intValue_def Let_def)

text \<open>
  Claim C5. The lookup \<open>getValueByIndex ctx t index\<close> fails with \<open>NotFound\<close> when the store
  has no value of type \<open>t\<close> (no entry, or an empty one); otherwise it fails with
  \<open>InvalidIndex\<close> when \<open>index < 0\<close>; otherwise it returns the value at position
  \<open>min index (length - 1)\<close> of the sequence of \<open>t\<close>: an index past the end is clamped
  to the last position and does not fail.
\<close>

theorem getValueByIndex_spec:
  "((values ctx t = None \<or> values ctx t = Some []) \<longrightarrow>
       getValueByIndex ctx t index = Inl (NotFound t))
   \<and> (\<forall>vs. values ctx t = Some vs \<and> vs \<noteq> [] \<longrightarrow>
         (index < 0 \<longrightarrow> getValueByIndex ctx t index = Inl (InvalidIndex t))
       \<and> (0 \<le> index \<longrightarrow>
            getValueByIndex ctx t index = Inr (vs ! nat (min index (int (length vs) - 1)))))"
  by (auto simp: getValueByIndex_def min_def)

theorem getValueByIndex_spec_witness:
  "values NewExecutionContext ''int'' = None
   \<and> getValueByIndex NewExecutionContext ''int'' 0 = Inl (NotFound ''int'')
   \<and> values twoInts ''int'' = Some [intValue 10, intValue 20]
   \<and> getValueByIndex twoInts ''int'' (- 1) = Inl (InvalidIndex ''int'')
   \<and> getValueByIndex twoInts ''int'' 5 = Inr (intValue 20)"
  using getValueByIndex_spec [of NewExecutionContext "''int''" 0]
    getValueByIndex_spec [of twoInts "''int''" "- 1"]
    getValueByIndex_spec [of twoInts "''int''" 5]
  by (simp add: twoInts_values) (simp add: NewExecutionContext_def)

section \<open>Explicit bindings\<close>

lemma twoInputs_initial: "initialValues (context twoInputs) = [intValue 10, stringValue 20]"
  by (simp add: twoInputs_def AddInitialInputs_def NewPipeline_def logCall_def
      NewExecutionContext_def Let_def)

text \<open>
  Claim C6. An \<open>Initial\<close> binding with index \<open>i\<close> fails with \<open>IndexOutOfRange\<close> unless
  \<open>0 \<le> i < length\<close> of the initial inputs; within the range it fails with
  \<open>TypeMismatch\<close> unless the type of the value at position \<open>i\<close> is assignable to the
  parameter's type, and otherwise returns that value unchanged.
\<close>

theorem resolveArgFromInitial_spec:
  "(\<not> (0 \<le> i \<and> i < int (length (initialValues (context p)))) \<longrightarrow>
      resolveArgFromInitial A p step T i =
        Inl (IndexOutOfRangeInitial (Step.Name step) i (length (initialValues (context p)))))
   \<and> (0 \<le> i \<and> i < int (length (initialValues (context p))) \<longrightarrow>
        (\<not> A (Type (initialValues (context p) ! nat i)) T \<longrightarrow>
           resolveArgFromInitial A p step T i =
             Inl (TypeMismatchInitial (Step.Name step) i
                    (Type (initialValues (context p) ! nat i)) T))
      \<and> (A (Type (initialValues (context p) ! nat i)) T \<longrightarrow>
           resolveArgFromInitial A p step T i = Inr (initialValues (context p) ! nat i)))"
  by (auto simp: resolveArgFromInitial_def InitialValues_def Let_def)

theorem resolveArgFromInitial_spec_witness:
  "resolveArgFromInitial (=) twoInputs stepB ''int'' 2 = Inl (IndexOutOfRangeInitial ''b'' 2 2)
   \<and> resolveArgFromInitial (=) twoInputs stepB ''int'' 1 =
      Inl (TypeMismatchInitial ''b'' 1 ''string'' ''int'')
   \<and> resolveArgFromInitial (=) twoInputs stepB ''int'' 0 = Inr (intValue 10)"
  using resolveArgFromInitial_spec [of 2 twoInputs "(=)" stepB "''int''"]
    resolveArgFromInitial_spec [of 1 twoInputs "(=)" stepB "''int''"]
    resolveArgFromInitial_spec [of 0 twoInputs "(=)" stepB "''int''"]
  by (simp add: twoInputs_initial intValue_def stringValue_def stepB_def)

lemmas run_defs =
  Execute_def executeLoopBody_def beginStep_def executeStep_def resolveStepArgs_def stepBindings_def
  reorderStepsIfNeeded_def AddStep_def AddInitialInputs_def NewPipeline_def
  NewPipelineConfig_def NewExecutionContext_def configWith_def logCall_def storeValue_def
  sliceAt_def Interface_def Let_def

lemma returned_simps [simp]:
  "returned (Inl err) = Inl (Err err)"
  "returned (Inr v) = Inr v"
  "returned r = Inr v \<longleftrightarrow> r = Inr v"
  "Inr v = returned r \<longleftrightarrow> r = Inr v"
  "returned r = Inl (Err err) \<longleftrightarrow> r = Inl err"
  "returned r \<noteq> Inl Panic"
  by (auto simp: returned_def split: sum.splits)

lemma apfst_returned:
  "apfst returned x = (r, p') \<Longrightarrow> \<exists>r0. x = (r0, p') \<and> r = returned r0"
  by (cases x) auto

lemma ranA_outputs: "stepOutputs ranA = [''a'' \<mapsto> [Boxed ''int'' 1]]"
  by (simp add: ranA_def onlyA_def run_defs produceOne_def intValue_def Interface_def)

text \<open>
  The outcomes of a \<open>FunctionOutput\<close> binding with step name \<open>n\<close> and index \<open>i\<close>:
  \<open>UnknownProducer\<close> when the output log has no entry for \<open>n\<close>; otherwise
  \<open>IndexOutOfRange\<close> unless \<open>0 \<le> i < length\<close> of the outputs of \<open>n\<close> (a step that ran
  and returned nothing has an empty entry, so every index is out of range for it);
  otherwise a panic when the output at \<open>i\<close> is a nil interface; otherwise
  \<open>TypeMismatch\<close> unless the dynamic type of the output is assignable to the
  parameter's type; otherwise the output, as a value of its dynamic type.
\<close>

lemma resolveArgFromFunctionOutput_cases:
  "(stepOutputs p n = None \<longrightarrow>
      resolveArgFromFunctionOutput A p step T n i = Inl (Err (UnknownProducer (Step.Name step) n)))
   \<and> (\<forall>outs. stepOutputs p n = Some outs \<longrightarrow>
        (\<not> (0 \<le> i \<and> i < int (length outs)) \<longrightarrow>
           resolveArgFromFunctionOutput A p step T n i =
             Inl (Err (IndexOutOfRangeOutput (Step.Name step) i n (length outs))))
      \<and> (0 \<le> i \<and> i < int (length outs) \<and> outs ! nat i = NilInterface \<longrightarrow>
           resolveArgFromFunctionOutput A p step T n i = Inl Panic)
      \<and> (\<forall>t x. 0 \<le> i \<and> i < int (length outs) \<and> outs ! nat i = Boxed t x \<and> \<not> A t T \<longrightarrow>
           resolveArgFromFunctionOutput A p step T n i =
             Inl (Err (TypeMismatchOutput (Step.Name step) t n T)))
      \<and> (\<forall>t x. 0 \<le> i \<and> i < int (length outs) \<and> outs ! nat i = Boxed t x \<and> A t T \<longrightarrow>
           resolveArgFromFunctionOutput A p step T n i = Inr (RValue t (Boxed t x))))"
  by (auto simp: resolveArgFromFunctionOutput_def ValueOf_def Let_def)

section \<open>Filtering the outputs\<close>

lemma buildFilterSet_eq:
  "buildFilterSet fs names n = (if n \<in> set names then Some () else fs n)"
  by (induction names arbitrary: fs) auto

lemma filterOutputs_eq:
  "filterOutputs p =
     (if OutputFilter (config p) = [] then stepOutputs p
      else (\<lambda>n. if n \<in> set (OutputFilter (config p)) then stepOutputs p n else None))"
  by (auto simp: filterOutputs_def buildFilterSet_eq fun_eq_iff split: option.splits)

text \<open>
  Claim C8. Filtering the output log twice with the same filter gives what filtering
  once gives, for every log and every filter (empty or not), and filtering with an
  empty filter returns the log unchanged.
\<close>

theorem filterOutputs_idem:
  "filterOutputs (p\<lparr>stepOutputs := filterOutputs p\<rparr>) = filterOutputs p
   \<and> (OutputFilter (config p) = [] \<longrightarrow> filterOutputs p = stepOutputs p)"
  by (auto simp: filterOutputs_eq fun_eq_iff)

lemma ranA_filter: "OutputFilter (config ranA) = []"
  by (simp add: ranA_def onlyA_def run_defs produceOne_def)

theorem filterOutputs_idem_witness:
  "OutputFilter (config ranA) = [] \<and> filterOutputs ranA = [''a'' \<mapsto> [Boxed ''int'' 1]]"
  using filterOutputs_idem [of ranA] by (simp add: ranA_filter ranA_outputs)

section \<open>Reordering\<close>

lemma buildStepMap_eq:
  "buildStepMap m ss n =
     (if n \<in> Step.Name ` set ss then Some (last (filter (\<lambda>s. Step.Name s = n) ss)) else m n)"
proof (induction ss arbitrary: m)
  case Nil
  show ?case by simp
next
  case (Cons s ss)
  show ?case
  proof (cases "n \<in> Step.Name ` set ss")
    case True
    then have "filter (\<lambda>s. Step.Name s = n) ss \<noteq> []"
      by (auto simp: filter_empty_conv)
    with True show ?thesis by (simp add: Cons.IH)
  next
    case False
    then have "filter (\<lambda>s. Step.Name s = n) ss = []"
      by (auto simp: filter_empty_conv)
    with False show ?thesis by (auto simp: Cons.IH)
  qed
qed

lemma walkStepOrder_eq:
  "walkStepOrder sm names (used, ordered, lg) =
     ((\<lambda>n. if n \<in> set names \<and> sm n \<noteq> None then Some True else used n),
      ordered @ map (\<lambda>n. the (sm n)) (filter (\<lambda>n. sm n \<noteq> None) names),
      lg @ map WarnNotInSteps (filter (\<lambda>n. sm n = None) names))"
  by (induction names arbitrary: used ordered lg) (auto simp: fun_eq_iff)

lemma addRemaining_eq:
  "addRemaining used ss ordered = ordered @ filter (\<lambda>s. \<not> isUsed used (Step.Name s)) ss"
  by (induction ss arbitrary: ordered) auto

lemma reorder_steps:
  "addRemaining (\<lambda>n. if n \<in> set names \<and> buildStepMap Map.empty ss n \<noteq> None then Some True else None)
      ss ordered =
   ordered @ filter (\<lambda>s. Step.Name s \<notin> set names) ss"
  unfolding addRemaining_eq
  by (rule arg_cong [where f = "\<lambda>xs. ordered @ xs"], rule filter_cong)
     (auto simp: isUsed_def buildStepMap_eq)

lemma reorder_prefix:
  "map (\<lambda>n. the (buildStepMap Map.empty ss n)) (filter (\<lambda>n. buildStepMap Map.empty ss n \<noteq> None) names) =
   map (\<lambda>n. last (filter (\<lambda>s. Step.Name s = n) ss)) (filter (\<lambda>n. n \<in> Step.Name ` set ss) names)"
  by (induction names) (auto simp: buildStepMap_eq)

lemma reorder_warnings:
  "filter (\<lambda>n. buildStepMap Map.empty ss n = None) names =
   filter (\<lambda>n. n \<notin> Step.Name ` set ss) names"
  by (rule filter_cong) (auto simp: buildStepMap_eq)

text \<open>
  Claim C2, amended. The reordered sequence is, for each occurrence in the configured
  order of a name that some registered step has, the step registered under that name
  (the last one registered, when several share it), in the configured order: a name
  that occurs several times in the order contributes its step once per occurrence.
  Then come the registered steps whose names do not occur in the configured order,
  in registration order. Each occurrence of a name that no registered step has adds
  one warning to the log and no step. Nothing else of the pipeline changes, and an
  empty configured order leaves the pipeline as it is.
\<close>

theorem reorderStepsIfNeeded_spec:
  "reorderStepsIfNeeded p =
     p\<lparr>steps :=
          map (\<lambda>n. last (filter (\<lambda>s. Step.Name s = n) (steps p)))
            (filter (\<lambda>n. n \<in> Step.Name ` set (steps p)) (StepOrder (config p)))
          @ filter (\<lambda>s. Step.Name s \<notin> set (StepOrder (config p))) (steps p),
       logger :=
          logger p
          @ map WarnNotInSteps
              (filter (\<lambda>n. n \<notin> Step.Name ` set (steps p)) (StepOrder (config p)))\<rparr>
   \<and> (StepOrder (config p) = [] \<longrightarrow> reorderStepsIfNeeded p = p)"
proof (cases "StepOrder (config p) = []")
  case True
  then show ?thesis by (simp add: reorderStepsIfNeeded_def)
next
  case False
  then have "reorderStepsIfNeeded p =
      (let stepMap = buildStepMap Map.empty (steps p);
           (used, ordered, lg) =
              walkStepOrder stepMap (StepOrder (config p)) (Map.empty, [], logger p);
           ordered' = addRemaining used (steps p) ordered
       in p\<lparr>steps := ordered', logger := lg\<rparr>)"
    by (simp add: reorderStepsIfNeeded_def)
  also have "\<dots> =
      p\<lparr>steps :=
          map (\<lambda>n. last (filter (\<lambda>s. Step.Name s = n) (steps p)))
            (filter (\<lambda>n. n \<in> Step.Name ` set (steps p)) (StepOrder (config p)))
          @ filter (\<lambda>s. Step.Name s \<notin> set (StepOrder (config p))) (steps p),
        logger :=
          logger p
          @ map WarnNotInSteps
              (filter (\<lambda>n. n \<notin> Step.Name ` set (steps p)) (StepOrder (config p)))\<rparr>"
    unfolding Let_def walkStepOrder_eq prod.case append_Nil reorder_steps reorder_prefix
      reorder_warnings ..
  finally show ?thesis using False by simp
qed

theorem reorderStepsIfNeeded_spec_witness:
  "StepOrder (config onlyA) = [] \<and> reorderStepsIfNeeded onlyA = onlyA
   \<and> map Step.Name (steps mixedOrder) = [''a'', ''b'']
   \<and> StepOrder (config mixedOrder) = [''b'', ''z'', ''a'']
   \<and> map Step.Name (steps (reorderStepsIfNeeded mixedOrder)) = [''b'', ''a'']
   \<and> logger (reorderStepsIfNeeded mixedOrder) = logger mixedOrder @ [WarnNotInSteps ''z'']"
  using reorderStepsIfNeeded_spec [of onlyA] reorderStepsIfNeeded_spec [of mixedOrder]
  by (simp add: onlyA_def mixedOrder_def AddStep_def NewPipeline_def NewPipelineConfig_def
      configWith_def logCall_def)

text \<open>
  The claim as stated fails when the configured order repeats a name: with the single
  registered step \<open>a\<close> and the order \<open>a, a\<close> the step is appended twice.
\<close>

theorem reorderStepsIfNeeded_repeat_counterexample:
  "map Step.Name (steps repeatedOrder) = [''a'']
   \<and> StepOrder (config repeatedOrder) = [''a'', ''a'']
   \<and> map Step.Name (steps (reorderStepsIfNeeded repeatedOrder)) = [''a'', ''a'']"
  by (simp add: repeatedOrder_def reorderStepsIfNeeded_def AddStep_def NewPipeline_def
      NewPipelineConfig_def configWith_def logCall_def isUsed_def)

section \<open>Running the steps\<close>

subsection \<open>What argument resolution leaves unchanged\<close>

lemma resolveArgDefault_frame:
  "resolveArgDefault p step T = (r, p') \<Longrightarrow> p' = p\<lparr>pickCounters := pickCounters p'\<rparr>"
  by (auto simp: resolveArgDefault_def Let_def split: if_splits sum.splits)

lemma resolveArg_frame:
  "resolveArg A p step T b = (r, p') \<Longrightarrow> p' = p\<lparr>pickCounters := pickCounters p'\<rparr>"
  by (auto simp: resolveArg_def split: if_splits dest!: apfst_returned
      dest: resolveArgDefault_frame)

lemma resolveParam_frame:
  "resolveParam A p step h bs i T = (r, p') \<Longrightarrow> p' = p\<lparr>pickCounters := pickCounters p'\<rparr>"
  by (auto simp: resolveParam_def split: option.splits dest!: apfst_returned
      dest: resolveArgDefault_frame resolveArg_frame)

lemma frame_trans:
  "p1 = p\<lparr>pickCounters := c1\<rparr> \<Longrightarrow> p2 = p1\<lparr>pickCounters := c2\<rparr> \<Longrightarrow>
   p2 = p\<lparr>pickCounters := pickCounters p2\<rparr>"
  by simp

lemma resolveArgs_frame:
  "resolveArgs A p step h bs i ts = (r, p') \<Longrightarrow> p' = p\<lparr>pickCounters := pickCounters p'\<rparr>"
proof (induction ts arbitrary: p i r p')
  case Nil
  then show ?case by simp
next
  case (Cons t ts)
  obtain r1 p1 where first: "resolveParam A p step h bs i t = (r1, p1)"
    by (cases "resolveParam A p step h bs i t")
  note f1 = resolveParam_frame [OF first]
  show ?case
  proof (cases r1)
    case (Inl err)
    with Cons.prems first have "p' = p1" by simp
    with f1 show ?thesis by simp
  next
    case (Inr argVal)
    obtain r2 p2 where rest: "resolveArgs A p1 step h bs (Suc i) ts = (r2, p2)"
      by (cases "resolveArgs A p1 step h bs (Suc i) ts")
    from Cons.prems first Inr rest have "p' = p2"
      by (auto split: sum.splits)
    with Cons.IH [OF rest] f1 show ?thesis
      by (metis frame_trans)
  qed
qed

lemma resolveStepArgs_frame:
  "resolveStepArgs A p step = (r, p') \<Longrightarrow> p' = p\<lparr>pickCounters := pickCounters p'\<rparr>"
  by (auto simp: resolveStepArgs_def split: prod.splits dest: resolveArgs_frame)

subsection \<open>What a step does to the pipeline\<close>

lemma executeStep_failed:
  "executeStep A p step = (Some err, p') \<Longrightarrow> p' = p\<lparr>pickCounters := pickCounters p'\<rparr>"
  by (auto simp: executeStep_def Let_def split: prod.splits sum.splits
      dest: resolveStepArgs_frame)

lemma executeStep_done:
  assumes "executeStep A p step = (None, p')"
  shows "\<exists>args q. resolveStepArgs A p step = (Inr args, q)
           \<and> context p' = StoreResults (context p) (Call (Callable step) args)
           \<and> stepOutputs p' = (stepOutputs p)
                (Step.Name step \<mapsto> sliceAt (stepOutputs p) (Step.Name step)
                   @ map Interface (Call (Callable step) args))
           \<and> steps p' = steps p \<and> config p' = config p"
proof -
  obtain r q where rs: "resolveStepArgs A p step = (r, q)"
    by (cases "resolveStepArgs A p step")
  from assms rs obtain args where r: "r = Inr args"
    by (cases r) (auto simp: executeStep_def)
  have q: "q = p\<lparr>pickCounters := pickCounters q\<rparr>"
    using resolveStepArgs_frame [OF rs] .
  have "context q = context p" "stepOutputs q = stepOutputs p" "steps q = steps p"
    "config q = config p"
    by (subst q, simp)+
  with assms rs r show ?thesis
    by (auto simp: executeStep_def Let_def logCall_def)
qed

lemma executeLoopBody_failed:
  assumes "executeLoopBody A p step = (Some f, p')"
  shows "context p' = context p \<and> stepOutputs p' = stepOutputs p
         \<and> steps p' = steps p \<and> config p' = config p"
proof -
  obtain r p3 where es: "executeStep A (beginStep p step) step = (r, p3)"
    by (cases "executeStep A (beginStep p step) step")
  with assms obtain f0 where r: "r = Some f0"
    and p': "p' = p3 \<or> (\<exists>l. p' = logCall p3 l)"
    by (auto simp: executeLoopBody_def split: option.splits failure.splits)
  from es r have p3: "p3 = (beginStep p step)\<lparr>pickCounters := pickCounters p3\<rparr>"
    by (auto dest: executeStep_failed)
  have "context p3 = context p \<and> stepOutputs p3 = stepOutputs p
         \<and> steps p3 = steps p \<and> config p3 = config p"
    by (subst p3, simp add: logCall_def beginStep_def)+
  with p' show ?thesis
    by (auto simp: logCall_def)
qed

lemma executeLoopBody_done:
  assumes "executeLoopBody A p step = (None, p')"
  shows "dom (stepOutputs p') = insert (Step.Name step) (dom (stepOutputs p))
         \<and> steps p' = steps p \<and> config p' = config p"
proof -
  from assms have "executeStep A (beginStep p step) step = (None, p')"
    by (auto simp: executeLoopBody_def split: option.splits prod.splits failure.splits)
  from executeStep_done [OF this] show ?thesis
    by (auto simp: logCall_def beginStep_def)
qed

lemma executeSteps_append:
  "executeSteps A p (pre @ rest) =
     (case executeSteps A p pre of
        (Some err, p') \<Rightarrow> (Some err, p')
      | (None, p') \<Rightarrow> executeSteps A p' rest)"
  by (induction pre arbitrary: p) (auto split: prod.splits option.splits)

lemma executeSteps_done:
  "executeSteps A p ss = (None, p') \<Longrightarrow>
     dom (stepOutputs p') = dom (stepOutputs p) \<union> Step.Name ` set ss
     \<and> steps p' = steps p \<and> config p' = config p"
proof (induction ss arbitrary: p)
  case Nil
  then show ?case by simp
next
  case (Cons s ss)
  obtain r q where b: "executeLoopBody A p s = (r, q)"
    by (cases "executeLoopBody A p s")
  with Cons.prems have r: "r = None" and rest: "executeSteps A q ss = (None, p')"
    by (auto split: option.splits)
  from executeLoopBody_done [OF b [unfolded r]] Cons.IH [OF rest] show ?case
    by auto
qed

lemma reorderStepsIfNeeded_frame:
  "stepOutputs (reorderStepsIfNeeded p) = stepOutputs p
   \<and> context (reorderStepsIfNeeded p) = context p
   \<and> config (reorderStepsIfNeeded p) = config p"
  by (simp add: reorderStepsIfNeeded_def Let_def split: prod.splits)

text \<open>
  Claim C3, amended. When the steps before position \<open>i\<close> of the executed sequence
  succeed and the step at position \<open>i\<close> fails with an error, \<open>Execute\<close> returns the empty
  (nil) map together with that error; the run is the same as if no step followed (the steps
  after \<open>i\<close> are not executed), and the value store and the output log are those left
  by the steps before \<open>i\<close>. The names in the log are the names it had before the run
  and the names of the steps before \<open>i\<close>: the name of a later step is absent unless
  it is one of these.
\<close>

theorem Execute_fail_fast:
  assumes "steps (reorderStepsIfNeeded p) = pre @ step # post"
    and "executeSteps A (reorderStepsIfNeeded p) pre = (None, p1)"
    and "executeLoopBody A p1 step = (Some (Err err), p2)"
  shows "Execute A p = (Returns (Map.empty, Some err), p2)
     \<and> executeSteps A (reorderStepsIfNeeded p) (pre @ step # post) =
         executeSteps A (reorderStepsIfNeeded p) (pre @ [step])
     \<and> context p2 = context p1
     \<and> stepOutputs p2 = stepOutputs p1
     \<and> dom (stepOutputs p2) = dom (stepOutputs p) \<union> Step.Name ` set pre"
proof -
  have run: "executeSteps A (reorderStepsIfNeeded p) (pre @ step # rest) = (Some (Err err), p2)"
    for rest
    using assms(2,3) by (simp add: executeSteps_append)
  have same: "context p2 = context p1 \<and> stepOutputs p2 = stepOutputs p1"
    using executeLoopBody_failed [OF assms(3)] by simp
  have "dom (stepOutputs p1) = dom (stepOutputs p) \<union> Step.Name ` set pre"
    using executeSteps_done [OF assms(2)] by (simp add: reorderStepsIfNeeded_frame)
  with same run [of post] run [of "[]"] assms(1) show ?thesis
    by (simp add: Execute_def Let_def)
qed

lemmas resolve_defs =
  resolveParam_def customBinding_def resolveArg_def resolveArgDefault_def
  resolveArgFromInitial_def resolveArgFromFunctionOutput_def ValueOf_def getValueByIndex_def
  pickCounter_def InitialValues_def MissingArgPolicyUseLatest_def MissingArgPolicyFail_def
  ArgSourceDefault_def ArgSourceInitial_def ArgSourceFunctionOutput_def

lemmas example_defs =
  stepA_def stepB_def stepC_def produceOne_def consumeString_def produceNothing_def
  intValue_def stringValue_def

lemma failingB_steps: "steps (reorderStepsIfNeeded failingB) = [stepA] @ stepB # [stepC]"
  by (simp add: failingB_def run_defs example_defs)

lemma failingB_pre:
  "fst (executeSteps (=) (reorderStepsIfNeeded failingB) [stepA]) = None"
  by (simp add: failingB_def run_defs resolve_defs example_defs)

lemma failingB_step:
  "fst (executeLoopBody (=) (snd (executeSteps (=) (reorderStepsIfNeeded failingB) [stepA])) stepB)
     = Some (Err (CannotFindValue ''b'' ''string'' (NotFound ''string'')))"
  by (simp add: failingB_def run_defs resolve_defs example_defs)

lemma failingB_log:
  "stepOutputs failingB = Map.empty"
  by (simp add: failingB_def run_defs)

theorem Execute_fail_fast_witness:
  "fst (Execute (=) failingB) =
     Returns (Map.empty, Some (CannotFindValue ''b'' ''string'' (NotFound ''string'')))
   \<and> dom (stepOutputs (snd (Execute (=) failingB))) = {''a''}"
proof -
  define p1 where "p1 = snd (executeSteps (=) (reorderStepsIfNeeded failingB) [stepA])"
  define p2 where "p2 = snd (executeLoopBody (=) p1 stepB)"
  have pre: "executeSteps (=) (reorderStepsIfNeeded failingB) [stepA] = (None, p1)"
    by (rule prod_eqI) (simp_all only: fst_conv snd_conv failingB_pre p1_def)
  have step: "executeLoopBody (=) p1 stepB =
      (Some (Err (CannotFindValue ''b'' ''string'' (NotFound ''string''))), p2)"
    by (rule prod_eqI) (simp_all only: fst_conv snd_conv failingB_step p1_def p2_def)
  from Execute_fail_fast [OF failingB_steps pre step]
  have run: "Execute (=) failingB =
      (Returns (Map.empty, Some (CannotFindValue ''b'' ''string'' (NotFound ''string''))), p2)"
    and log: "dom (stepOutputs p2) = dom (stepOutputs failingB) \<union> Step.Name ` set [stepA]"
    by blast+
  show ?thesis
    by (simp add: run log failingB_log stepA_def)
qed

text \<open>
  The claim as stated fails where a step after the failing one shares its name with
  a step that already ran: with the registered steps \<open>a, b\<close> and the configured order
  \<open>a, b, a\<close> the executed sequence is \<open>a, b, a\<close>; \<open>b\<close> fails, the third step never runs
  (the logger shows it), and its name \<open>a\<close> is in the output log.
\<close>

theorem Execute_fail_fast_counterexample:
  "map Step.Name (steps (snd (Execute (=) repeatA))) = [''a'', ''b'', ''a'']
   \<and> fst (Execute (=) repeatA) =
       Returns (Map.empty, Some (CannotFindValue ''b'' ''string'' (NotFound ''string'')))
   \<and> logger (snd (Execute (=) repeatA)) =
       [DebugAddedStep ''a'', DebugAddedStep ''b'', InfoExecuting ''a'', DebugProduced ''a'' 1,
        InfoExecuting ''b'',
        ErrorStepFailed ''b'' (CannotFindValue ''b'' ''string'' (NotFound ''string''))]
   \<and> stepOutputs (snd (Execute (=) repeatA)) ''a'' = Some [Boxed ''int'' 1]"
  by (simp add: repeatA_def run_defs resolve_defs example_defs isUsed_def)

text \<open>
  Claim C9, amended. After a successful run with a non-empty output filter, the result
  has an entry for a name exactly when the name is in the filter and the output log
  has an entry for it, that is when a step of that name was executed (or the log
  held the name before the run); the entry is the log's. A name of no executed step
  yields no entry. A step that ran and returned no value has an entry in the log, so
  its name yields an entry with the empty list.
\<close>

theorem filterOutputs_after_run:
  assumes "Execute A p = (Returns (out, None), p')"
    and "OutputFilter (config p) \<noteq> []"
  shows "dom out =
           set (OutputFilter (config p))
           \<inter> (dom (stepOutputs p) \<union> Step.Name ` set (steps (reorderStepsIfNeeded p)))
         \<and> (\<forall>n \<in> dom out. out n = stepOutputs p' n)"
proof -
  let ?p0 = "reorderStepsIfNeeded p"
  obtain r p1 where run: "executeSteps A ?p0 (steps ?p0) = (r, p1)"
    by (cases "executeSteps A ?p0 (steps ?p0)")
  with assms(1) have r: "r = None" and out: "out = filterOutputs p1"
    and p': "p' = logCall p1 InfoComplete"
    by (auto simp: Execute_def Let_def split: option.splits failure.splits)
  from executeSteps_done [OF run [unfolded r]]
  have d: "dom (stepOutputs p1) = dom (stepOutputs p) \<union> Step.Name ` set (steps ?p0)"
    and c: "config p1 = config p"
    by (simp_all add: reorderStepsIfNeeded_frame)
  have o: "out n = (if n \<in> set (OutputFilter (config p)) then stepOutputs p1 n else None)" for n
    using assms(2) by (simp add: out filterOutputs_eq c)
  have "dom out = set (OutputFilter (config p)) \<inter> dom (stepOutputs p1)"
    by (auto simp: o dom_def)
  moreover have "\<forall>n \<in> dom out. out n = stepOutputs p' n"
    by (auto simp: o p' logCall_def split: if_splits)
  ultimately show ?thesis using d by simp
qed

lemma quietPipeline_run:
  "Execute (=) quietPipeline =
     (Returns (fst (returnedValues (fst (Execute (=) quietPipeline))), None),
      snd (Execute (=) quietPipeline))"
  by (simp add: quietPipeline_def run_defs resolve_defs example_defs)

lemma quietPipeline_filter: "OutputFilter (config quietPipeline) = [''a'']"
  by (simp add: quietPipeline_def run_defs)

theorem filterOutputs_after_run_witness:
  "fst (Execute (=) quietPipeline) \<noteq> Panics
   \<and> snd (returnedValues (fst (Execute (=) quietPipeline))) = None
   \<and> OutputFilter (config quietPipeline) = [''a'']
   \<and> dom (fst (returnedValues (fst (Execute (=) quietPipeline)))) = {''a''}"
proof -
  have ne: "OutputFilter (config quietPipeline) \<noteq> []"
    by (simp add: quietPipeline_filter)
  have s: "steps (reorderStepsIfNeeded quietPipeline) = [\<lparr>Name = ''a'', Callable = produceNothing\<rparr>]"
    and l: "stepOutputs quietPipeline = Map.empty"
    by (simp_all add: quietPipeline_def run_defs)
  from filterOutputs_after_run [OF quietPipeline_run ne]
  have d: "dom (fst (returnedValues (fst (Execute (=) quietPipeline)))) = {''a''}"
    by (simp add: quietPipeline_filter s l)
  have "fst (Execute (=) quietPipeline) \<noteq> Panics"
    and "snd (returnedValues (fst (Execute (=) quietPipeline))) = None"
    by (subst quietPipeline_run, simp)+
  with d show ?thesis
    by (simp add: quietPipeline_filter)
qed

text \<open>
  The claim as stated fails for a step that ran and returned zero values: the
  filtered result has an entry for it, with the empty list.
\<close>

theorem filterOutputs_empty_entry_counterexample:
  "OutputFilter (config quietPipeline) = [''a'']
   \<and> fst (Execute (=) quietPipeline) \<noteq> Panics
   \<and> snd (returnedValues (fst (Execute (=) quietPipeline))) = None
   \<and> fst (returnedValues (fst (Execute (=) quietPipeline))) ''a'' = Some []"
  by (simp add: quietPipeline_def run_defs resolve_defs example_defs filterOutputs_def)

section \<open>Default resolution\<close>

subsection \<open>Default resolution inside the parameter loop\<close>

lemma resolveParam_default:
  "defaultResolved h bs i \<Longrightarrow>
   resolveParam A p step h bs i T = apfst returned (resolveArgDefault p step T)"
  by (auto simp: defaultResolved_def resolveParam_def customBinding_def resolveArg_def
      split: option.splits)

lemma resolveParam_explicit:
  "\<not> defaultResolved h bs i \<Longrightarrow> resolveParam A p step h bs i T = (r, p') \<Longrightarrow> p' = p"
  by (auto simp: defaultResolved_def resolveParam_def customBinding_def resolveArg_def
      split: option.splits if_splits)

lemma resolveArgs_append:
  "resolveArgs A p step h bs i (ts @ us) =
     (case resolveArgs A p step h bs i ts of
        (Inl err, p') \<Rightarrow> (Inl err, p')
      | (Inr args, p') \<Rightarrow>
          (case resolveArgs A p' step h bs (i + length ts) us of
             (Inl err, p'') \<Rightarrow> (Inl err, p'')
           | (Inr args', p'') \<Rightarrow> (Inr (args @ args'), p'')))"
  by (induction ts arbitrary: p i) (auto split: prod.splits sum.splits)

lemma resolveArgs_stops:
  assumes "i < length ts"
    and "resolveArgs A p step h bs 0 (take i ts) = (Inr args, q)"
    and "resolveParam A q step h bs i (ts ! i) = (Inl err, q')"
  shows "resolveArgs A p step h bs 0 ts = (Inl err, q')"
proof -
  have "ts = take i ts @ ts ! i # drop (Suc i) ts"
    using assms(1) by (simp add: id_take_nth_drop)
  then have "resolveArgs A p step h bs 0 ts =
      resolveArgs A p step h bs 0 (take i ts @ ts ! i # drop (Suc i) ts)"
    by simp
  also have "\<dots> = (Inl err, q')"
    using assms by (simp add: resolveArgs_append min_def)
  finally show ?thesis .
qed

lemma Fail_default:
  "MissingArgPolicy (config p) = MissingArgPolicyFail \<Longrightarrow>
   resolveArgDefault p step T = (Inl (MissingArgument (Step.Name step) T), p)"
  by (simp add: resolveArgDefault_def MissingArgPolicyFail_def MissingArgPolicyUseLatest_def)

lemma stepBindings_config:
  "config q = config p \<Longrightarrow> stepBindings q step = stepBindings p step"
  by (simp add: stepBindings_def)

lemma beginStep_frame:
  "config (beginStep p step) = config p \<and> context (beginStep p step) = context p
   \<and> stepOutputs (beginStep p step) = stepOutputs p \<and> pickCounters (beginStep p step) = Map.empty"
  by (simp add: beginStep_def logCall_def)

text \<open>
  Claim C7. Under the \<open>Fail\<close> policy a parameter that falls back to default resolution
  (the step has no configuration, its bindings do not reach the position, the entry is
  nil, or the entry is a \<open>Default\<close> binding) is resolved to the error \<open>MissingArgument\<close>,
  whatever the value store holds; when the run reaches that parameter (the steps before
  succeeded and the parameters before it resolved), \<open>Execute\<close> returns that error with
  the empty (nil) map.
\<close>

theorem Fail_policy_aborts:
  assumes "MissingArgPolicy (config p) = MissingArgPolicyFail"
    and "steps (reorderStepsIfNeeded p) = pre @ step # post"
    and "executeSteps A (reorderStepsIfNeeded p) pre = (None, p1)"
    and "stepBindings p step = (h, bs)"
    and "i < length (In (Callable step))"
    and "defaultResolved h bs i"
    and "resolveArgs A (beginStep p1 step) step h bs 0 (take i (In (Callable step))) = (Inr args, q)"
  shows "resolveParam A q step h bs i (In (Callable step) ! i) =
           (Inl (Err (MissingArgument (Step.Name step) (In (Callable step) ! i))), q)
     \<and> fst (Execute A p) =
           Returns (Map.empty, Some (MissingArgument (Step.Name step) (In (Callable step) ! i)))"
proof -
  let ?T = "In (Callable step) ! i"
  let ?err = "MissingArgument (Step.Name step) ?T"
  have c1: "config p1 = config p"
    using executeSteps_done [OF assms(3)] by (simp add: reorderStepsIfNeeded_frame)
  have q: "q = (beginStep p1 step)\<lparr>pickCounters := pickCounters q\<rparr>"
    using resolveArgs_frame [OF assms(7)] .
  have "config q = config (beginStep p1 step)"
    by (subst q) simp
  then have cq: "config q = config p"
    by (simp add: beginStep_frame c1)
  have param: "resolveParam A q step h bs i ?T = (Inl (Err ?err), q)"
    using assms(1,6) by (simp add: resolveParam_default Fail_default cq)
  have "stepBindings (beginStep p1 step) step = (h, bs)"
    using assms(4) by (simp add: stepBindings_def beginStep_frame c1)
  then have "resolveStepArgs A (beginStep p1 step) step = (Inl (Err ?err), q)"
    using resolveArgs_stops [OF assms(5,7) param] by (simp add: resolveStepArgs_def)
  then have "executeLoopBody A p1 step =
      (Some (Err ?err), logCall q (ErrorStepFailed (Step.Name step) ?err))"
    by (simp add: executeLoopBody_def executeStep_def)
  with assms(2,3) have "fst (Execute A p) = Returns (Map.empty, Some ?err)"
    by (simp add: Execute_def Let_def executeSteps_append)
  with param show ?thesis by simp
qed

lemma failPolicy_facts:
  "MissingArgPolicy (config failPolicy) = MissingArgPolicyFail"
  "values (context failPolicy) ''string'' = Some [stringValue 5]"
  "steps (reorderStepsIfNeeded failPolicy) = [stepA] @ stepB # []"
  "stepBindings failPolicy stepB = (False, [])"
  "fst (executeSteps (=) (reorderStepsIfNeeded failPolicy) [stepA]) = None"
  by (simp_all add: failPolicy_def run_defs resolve_defs example_defs)

theorem Fail_policy_aborts_witness:
  "MissingArgPolicy (config failPolicy) = MissingArgPolicyFail
   \<and> values (context failPolicy) ''string'' = Some [stringValue 5]
   \<and> fst (Execute (=) failPolicy) = Returns (Map.empty, Some (MissingArgument ''b'' ''string''))"
proof -
  define p1 where "p1 = snd (executeSteps (=) (reorderStepsIfNeeded failPolicy) [stepA])"
  have pre: "executeSteps (=) (reorderStepsIfNeeded failPolicy) [stepA] = (None, p1)"
    by (rule prod_eqI) (simp_all only: fst_conv snd_conv failPolicy_facts p1_def)
  have i: "0 < length (In (Callable stepB))"
    by (simp add: example_defs)
  have d: "defaultResolved False [] 0"
    by (simp add: defaultResolved_def)
  have r: "resolveArgs (=) (beginStep p1 stepB) stepB False [] 0 (take 0 (In (Callable stepB))) =
      (Inr [], beginStep p1 stepB)"
    by simp
  from Fail_policy_aborts [OF failPolicy_facts(1,3) pre failPolicy_facts(4) i d r]
  show ?thesis
    by (simp add: failPolicy_facts(1,2) example_defs)
qed

subsection \<open>The pick counters are never negative\<close>

lemma resolveArgDefault_nonneg:
  "resolveArgDefault p step T = (r, p') \<Longrightarrow> \<forall>t. 0 \<le> pickCounter p t \<Longrightarrow> 0 \<le> pickCounter p' u"
  by (auto simp: resolveArgDefault_def Let_def pickCounter_def
      split: if_splits sum.splits option.splits)

lemma resolveParam_nonneg:
  assumes "resolveParam A p step h bs i T = (r, p')" and "\<forall>t. 0 \<le> pickCounter p t"
  shows "0 \<le> pickCounter p' u"
proof (cases "defaultResolved h bs i")
  case True
  with assms show ?thesis
    by (auto simp: resolveParam_default dest!: apfst_returned dest: resolveArgDefault_nonneg)
next
  case False
  from resolveParam_explicit [OF False assms(1)] assms(2) show ?thesis by simp
qed

lemma resolveArgs_nonneg:
  "resolveArgs A p step h bs i ts = (r, p') \<Longrightarrow> \<forall>t. 0 \<le> pickCounter p t \<Longrightarrow>
   \<forall>t. 0 \<le> pickCounter p' t"
proof (induction ts arbitrary: p i r p')
  case Nil
  then show ?case by simp
next
  case (Cons t ts)
  obtain r1 p1 where first: "resolveParam A p step h bs i t = (r1, p1)"
    by (cases "resolveParam A p step h bs i t")
  have n1: "\<forall>t. 0 \<le> pickCounter p1 t"
    using resolveParam_nonneg [OF first Cons.prems(2)] by simp
  show ?case
  proof (cases r1)
    case (Inl err)
    with Cons.prems(1) first n1 show ?thesis by simp
  next
    case (Inr argVal)
    obtain r2 p2 where rest: "resolveArgs A p1 step h bs (Suc i) ts = (r2, p2)"
      by (cases "resolveArgs A p1 step h bs (Suc i) ts")
    with Cons.prems(1) first Inr have "p' = p2"
      by (auto split: sum.splits)
    with Cons.IH [OF rest n1] show ?thesis by simp
  qed
qed

lemma UseLatest_default:
  assumes "MissingArgPolicy (config p) = MissingArgPolicyUseLatest"
    and "values (context p) T = Some vs" and "vs \<noteq> []"
    and "0 \<le> pickCounter p T"
  shows "resolveArgDefault p step T =
     (Inr (vs ! nat (min (pickCounter p T) (int (length vs) - 1))),
      if pickCounter p T < int (length vs) - 1
      then p\<lparr>pickCounters := (pickCounters p)(T \<mapsto> pickCounter p T + 1)\<rparr> else p)"
  using assms
  by (auto simp: resolveArgDefault_def getValueByIndex_def sliceAt_def Let_def min_def)

text \<open>
  Claim C10. Under \<open>UseLatest\<close>, at any point of the parameter loop of a step (the
  parameters \<open>ts\<close> before were resolved, starting from the counters as the loop over
  the steps resets them), a parameter that falls back to default resolution and whose
  type has a non-empty sequence in the value store is resolved successfully, to a
  value of that sequence: the pick counter is never negative and the lookup clamps.
\<close>

theorem UseLatest_default_succeeds:
  assumes "MissingArgPolicy (config p) = MissingArgPolicyUseLatest"
    and "resolveArgs A (beginStep p0 step) step h bs 0 ts = (Inr args, p)"
    and "defaultResolved h bs (length ts)"
    and "values (context p) T = Some vs"
    and "vs \<noteq> []"
  shows "\<exists>v p'. resolveParam A p step h bs (length ts) T = (Inr v, p') \<and> v \<in> set vs"
proof -
  have "\<forall>t. 0 \<le> pickCounter (beginStep p0 step) t"
    by (simp add: pickCounter_def beginStep_frame)
  from resolveArgs_nonneg [OF assms(2) this] have c: "0 \<le> pickCounter p T"
    by simp
  have "nat (min (pickCounter p T) (int (length vs) - 1)) < length vs"
    using assms(5) c by (cases vs) (auto simp: min_def)
  then have "vs ! nat (min (pickCounter p T) (int (length vs) - 1)) \<in> set vs"
    by simp
  then show ?thesis
    using assms(3) by (simp add: resolveParam_default UseLatest_default [OF assms(1,4,5) c])
qed

subsection \<open>Which value a default-resolved parameter receives\<close>

lemma resolveArgDefault_other:
  "resolveArgDefault p step t = (r, p') \<Longrightarrow> T \<noteq> t \<Longrightarrow> pickCounter p' T = pickCounter p T"
  by (auto simp: resolveArgDefault_def Let_def pickCounter_def split: if_splits sum.splits)

lemma resolveParam_counter:
  assumes "MissingArgPolicy (config p) = MissingArgPolicyUseLatest"
    and "values (context p) T = Some vs" and "vs \<noteq> []"
    and "0 \<le> pickCounter p T"
    and "resolveParam A p step h bs i t = (Inr a, p1)"
  shows "pickCounter p1 T =
           (if defaultResolved h bs i \<and> t = T \<and> pickCounter p T < int (length vs) - 1
            then pickCounter p T + 1 else pickCounter p T)"
    and "defaultResolved h bs i \<and> t = T \<longrightarrow>
           a = vs ! nat (min (pickCounter p T) (int (length vs) - 1))"
proof -
  consider (same) "defaultResolved h bs i" "t = T"
    | (other) "defaultResolved h bs i" "t \<noteq> T"
    | (explicit) "\<not> defaultResolved h bs i"
    by blast
  then have "pickCounter p1 T =
           (if defaultResolved h bs i \<and> t = T \<and> pickCounter p T < int (length vs) - 1
            then pickCounter p T + 1 else pickCounter p T)
      \<and> (defaultResolved h bs i \<and> t = T \<longrightarrow>
           a = vs ! nat (min (pickCounter p T) (int (length vs) - 1)))"
  proof cases
    case same
    with assms(5) UseLatest_default [OF assms(1-4), of step] show ?thesis
      by (auto simp: resolveParam_default pickCounter_def split: if_splits)
  next
    case other
    with assms(5) have "resolveArgDefault p step t = (Inr a, p1)"
      by (auto simp: resolveParam_default dest!: apfst_returned)
    from resolveArgDefault_other [OF this] other show ?thesis by auto
  next
    case explicit
    from resolveParam_explicit [OF explicit assms(5)] explicit show ?thesis by simp
  qed
  then show "pickCounter p1 T =
           (if defaultResolved h bs i \<and> t = T \<and> pickCounter p T < int (length vs) - 1
            then pickCounter p T + 1 else pickCounter p T)"
    and "defaultResolved h bs i \<and> t = T \<longrightarrow>
           a = vs ! nat (min (pickCounter p T) (int (length vs) - 1))"
    by blast+
qed

lemma count_upt_Suc:
  "length (filter P [0..<Suc n]) =
     (if P 0 then 1 else 0) + length (filter (\<lambda>q. P (Suc q)) [0..<n])"
proof -
  have "[0..<Suc n] = 0 # map Suc [0..<n]"
    by (simp add: upt_conv_Cons map_Suc_upt del: upt_Suc)
  then show ?thesis
    by (simp add: filter_map o_def del: upt_Suc)
qed

lemma resolveArgs_pick:
  assumes "MissingArgPolicy (config p) = MissingArgPolicyUseLatest"
    and "values (context p) T = Some vs" and "vs \<noteq> []"
    and "\<forall>t. 0 \<le> pickCounter p t"
    and "resolveArgs A p step h bs i0 ts = (Inr args, p')"
    and "i < length ts" and "defaultResolved h bs (i0 + i)" and "ts ! i = T"
  shows "args ! i =
     vs ! nat (min (pickCounter p T
                     + int (length (filter (\<lambda>q. defaultResolved h bs (i0 + q) \<and> ts ! q = T) [0..<i])))
                (int (length vs) - 1))"
  using assms
proof (induction ts arbitrary: p i0 i args p')
  case Nil
  then show ?case by simp
next
  case (Cons t ts)
  obtain r1 p1 where first: "resolveParam A p step h bs i0 t = (r1, p1)"
    by (cases "resolveParam A p step h bs i0 t")
  obtain r2 p2 where rest: "resolveArgs A p1 step h bs (Suc i0) ts = (r2, p2)"
    by (cases "resolveArgs A p1 step h bs (Suc i0) ts")
  from Cons.prems(5) first rest obtain a args' where
    r1: "r1 = Inr a" and r2: "r2 = Inr args'" and args: "args = a # args'"
    by (auto split: sum.splits)
  have c0: "0 \<le> pickCounter p T"
    using Cons.prems(4) by simp
  note cnt = resolveParam_counter [OF Cons.prems(1,2,3) c0 first [unfolded r1]]
  show ?case
  proof (cases i)
    case 0
    with Cons.prems(7,8) cnt(2) args show ?thesis by simp
  next
    case (Suc i')
    have p1: "p1 = p\<lparr>pickCounters := pickCounters p1\<rparr>"
      using resolveParam_frame [OF first] .
    have "config p1 = config p" "context p1 = context p"
      by (subst p1, simp)+
    then have pol: "MissingArgPolicy (config p1) = MissingArgPolicyUseLatest"
      and vals: "values (context p1) T = Some vs"
      using Cons.prems(1,2) by simp_all
    have nn: "\<forall>t. 0 \<le> pickCounter p1 t"
      using resolveParam_nonneg [OF first Cons.prems(4)] by simp
    define n' where
      "n' = length (filter (\<lambda>q. defaultResolved h bs (Suc i0 + q) \<and> ts ! q = T) [0..<i'])"
    define n where
      "n = length (filter (\<lambda>q. defaultResolved h bs (i0 + q) \<and> (t # ts) ! q = T) [0..<Suc i'])"
    have ih: "args' ! i' = vs ! nat (min (pickCounter p1 T + int n') (int (length vs) - 1))"
      unfolding n'_def
      using Cons.IH [OF pol vals Cons.prems(3) nn rest [unfolded r2], of i'] Cons.prems(6,7,8) Suc
      by simp
    have n: "n = (if defaultResolved h bs i0 \<and> t = T then 1 else 0) + n'"
      unfolding n_def n'_def by (simp add: count_upt_Suc del: upt_Suc)
    have "min (pickCounter p1 T + int n') (int (length vs) - 1) =
        min (pickCounter p T + int n) (int (length vs) - 1)"
      using cnt(1) c0 n by (auto simp: min_def)
    with ih have "args' ! i' = vs ! nat (min (pickCounter p T + int n) (int (length vs) - 1))"
      by simp
    then show ?thesis
      unfolding n_def using Suc args by simp
  qed
qed

text \<open>
  Claim C1. Under \<open>UseLatest\<close>, when the arguments of a step are resolved in the loop
  over the steps, a parameter at position \<open>i\<close> that falls back to default resolution and
  has type \<open>T\<close>, with \<open>k \<ge> 1\<close> values of type \<open>T\<close> in the store, receives the value at
  position \<open>min j (k - 1)\<close> of the sequence of \<open>T\<close>, where \<open>j\<close> is the number of
  default-resolved parameters of type \<open>T\<close> before \<open>i\<close> in that step. The step starts
  with an empty map of pick counters, and the counters the pipeline held before have
  no effect on the execution of the step.
\<close>

theorem UseLatest_picks:
  assumes "MissingArgPolicy (config p) = MissingArgPolicyUseLatest"
    and "stepBindings p step = (h, bs)"
    and "resolveStepArgs A (beginStep p step) step = (Inr args, p')"
    and "i < length (In (Callable step))"
    and "defaultResolved h bs i"
    and "In (Callable step) ! i = T"
    and "values (context p) T = Some vs"
    and "vs \<noteq> []"
  shows "args ! i = vs ! min (sameTypeDefaultsBefore h bs (In (Callable step)) T i) (length vs - 1)
     \<and> pickCounters (beginStep p step) = Map.empty
     \<and> executeLoopBody A (p\<lparr>pickCounters := c\<rparr>) step = executeLoopBody A p step"
proof -
  let ?q = "beginStep p step"
  let ?j = "sameTypeDefaultsBefore h bs (In (Callable step)) T i"
  have pol: "MissingArgPolicy (config ?q) = MissingArgPolicyUseLatest"
    and vals: "values (context ?q) T = Some vs"
    using assms(1,7) by (simp_all add: beginStep_frame)
  have zero: "pickCounter ?q t = 0" for t
    by (simp add: pickCounter_def beginStep_frame)
  then have nn: "\<forall>t. 0 \<le> pickCounter ?q t"
    by simp
  have "stepBindings ?q step = (h, bs)"
    using assms(2) by (simp add: stepBindings_def beginStep_frame)
  with assms(3) have run: "resolveArgs A ?q step h bs 0 (In (Callable step)) = (Inr args, p')"
    by (simp add: resolveStepArgs_def)
  have "args ! i = vs ! nat (min (pickCounter ?q T + int ?j) (int (length vs) - 1))"
    unfolding sameTypeDefaultsBefore_def
    using resolveArgs_pick [OF pol vals assms(8) nn run assms(4) _ assms(6)] assms(5)
    by simp
  moreover have "nat (min (int ?j) (int (length vs) - 1)) = min ?j (length vs - 1)"
    using assms(8) by (cases vs) (auto simp: min_def)
  ultimately have pick: "args ! i = vs ! min ?j (length vs - 1)"
    by (simp add: zero)
  have "beginStep (p\<lparr>pickCounters := c\<rparr>) step = beginStep p step"
    by (simp add: beginStep_def logCall_def)
  then have "executeLoopBody A (p\<lparr>pickCounters := c\<rparr>) step = executeLoopBody A p step"
    by (simp add: executeLoopBody_def)
  with pick show ?thesis
    by (simp add: beginStep_frame)
qed

lemma threeInputs_facts:
  "MissingArgPolicy (config threeInputs) = MissingArgPolicyUseLatest"
  "stepBindings threeInputs stepT = (False, [])"
  "values (context threeInputs) ''int'' = Some [intValue 10, intValue 20]"
  "In (Callable stepT) = [''int'', ''int'', ''int'']"
  by (simp_all add: threeInputs_def stepT_def threeInts_def run_defs resolve_defs example_defs)

lemma threeInputs_args:
  "fst (resolveStepArgs (=) (beginStep threeInputs stepT) stepT) =
     Inr [intValue 10, intValue 20, intValue 20]"
  by (simp add: threeInputs_def stepT_def threeInts_def run_defs resolve_defs example_defs)

lemma third_rank: "sameTypeDefaultsBefore False [] [''int'', ''int'', ''int''] ''int'' 2 = 2"
  by (simp add: sameTypeDefaultsBefore_def defaultResolved_def numeral_2_eq_2)

theorem UseLatest_picks_witness:
  "values (context threeInputs) ''int'' = Some [intValue 10, intValue 20]
   \<and> sameTypeDefaultsBefore False [] (In (Callable stepT)) ''int'' 2 = 2
   \<and> fst (resolveStepArgs (=) (beginStep threeInputs stepT) stepT) =
       Inr [intValue 10, intValue 20, intValue 20]
   \<and> [intValue 10, intValue 20, intValue 20] ! 2 = [intValue 10, intValue 20] ! 1"
proof -
  define p' where "p' = snd (resolveStepArgs (=) (beginStep threeInputs stepT) stepT)"
  have run: "resolveStepArgs (=) (beginStep threeInputs stepT) stepT =
      (Inr [intValue 10, intValue 20, intValue 20], p')"
    by (rule prod_eqI) (simp_all only: fst_conv snd_conv threeInputs_args p'_def)
  have i: "2 < length (In (Callable stepT))" and d: "defaultResolved False [] 2"
    and T: "In (Callable stepT) ! 2 = ''int''" and ne: "[intValue 10, intValue 20] \<noteq> []"
    by (simp_all add: threeInputs_facts defaultResolved_def)
  from UseLatest_picks [OF threeInputs_facts(1,2) run i d T threeInputs_facts(3) ne]
  show ?thesis
    by (simp add: threeInputs_facts third_rank threeInputs_args)
qed

lemma threeInputs_two:
  "resolveArgs (=) (beginStep threeInputs stepT) stepT False [] 0 [''int'', ''int''] =
     (Inr [intValue 10, intValue 20],
      (beginStep threeInputs stepT)\<lparr>pickCounters := [''int'' \<mapsto> 1]\<rparr>)"
  by (simp add: threeInputs_def stepT_def threeInts_def run_defs resolve_defs example_defs)

theorem UseLatest_default_succeeds_witness:
  "fst (resolveParam (=) ((beginStep threeInputs stepT)\<lparr>pickCounters := [''int'' \<mapsto> 1]\<rparr>)
         stepT False [] 2 ''int'') = Inr (intValue 20)"
proof -
  let ?p = "(beginStep threeInputs stepT)\<lparr>pickCounters := [''int'' \<mapsto> 1]\<rparr>"
  have pol: "MissingArgPolicy (config ?p) = MissingArgPolicyUseLatest"
    and vals: "values (context ?p) ''int'' = Some [intValue 10, intValue 20]"
    by (simp_all add: beginStep_frame threeInputs_facts)
  have d: "defaultResolved False [] (length [''int'', ''int''])"
    by (simp add: defaultResolved_def)
  have ne: "[intValue 10, intValue 20] \<noteq> []"
    by simp
  note ex = UseLatest_default_succeeds [OF pol threeInputs_two d vals ne]
  show ?thesis
    using ex
    by (simp add: resolveParam_default defaultResolved_def
        UseLatest_default [OF pol vals ne] pickCounter_def)
qed

section \<open>A nil output under a FunctionOutput binding\<close>

lemmas nil_defs =
  nilErrorBound_def nilErrorDefault_def stepE_def stepH_def outputOfE_def returnNilError_def
  passError_def

text \<open>
  Claim C4. The code at the input where it departs from the claim. Step \<open>e\<close> returns a
  nil error, which the output log holds as a nil interface. A \<open>FunctionOutput\<close> binding
  of the parameter of step \<open>h\<close> to output 0 of \<open>e\<close> (the log has the entry and the index
  is in range) neither fails with \<open>TypeMismatch\<close> nor returns the value: the resolution
  panics, and so does \<open>Execute\<close>, whatever \<^verbatim>\<open>AssignableTo\<close> says. With the same steps
  and no binding, default resolution hands the nil error to \<open>h\<close> and \<open>Execute\<close> returns
  without error.
\<close>

theorem nil_output_panics:
  "stepOutputs (snd (executeSteps A nilErrorBound [stepE])) ''e'' = Some [NilInterface]
   \<and> resolveArgFromFunctionOutput A (snd (executeSteps A nilErrorBound [stepE])) stepH
         ''error'' ''e'' 0 = Inl Panic
   \<and> fst (Execute A nilErrorBound) = Panics
   \<and> fst (Execute A nilErrorDefault) =
         Returns (stepOutputs (snd (Execute A nilErrorDefault)), None)
   \<and> stepOutputs (snd (Execute A nilErrorDefault)) ''h'' = Some [NilInterface]"
  by (simp add: nil_defs run_defs resolve_defs filterOutputs_def)

end
